theory Spec2Isabelle
  imports Main "HOL-Library.Sublist" "HOL-Library.AList"
begin

section \<open>JavaScript values used by the pool manager\<close>

text \<open>
  A parsed JSON document. The field list of \<open>JObj\<close> holds the own properties of the
  object that \<open>JSON.parse\<close> built, so every key occurs once.
\<close>

datatype json =
    JNull
  | JBool bool
  | JNum int
  | JStr string
  | JArr "json list"
  | JObj "(string \<times> json) list"

text \<open>
  Exceptions and promise rejections. \<open>AbortError\<close> is what \<open>fetch\<close> rejects with when
  the 2000 ms timer fires \<open>controller.abort()\<close>; \<open>FetchError\<close> stands for a refused
  connection or any other network failure; \<open>SyntaxError\<close> is the rejection of
  \<open>response.json()\<close> on a body that is not JSON; \<open>Error\<close> is \<open>new Error(message)\<close>.
  \<open>Uncaught e\<close> is no rejection handed to a caller: \<open>e\<close> was thrown outside every
  \<open>try\<close> block (an \<open>error\<close> event emitted on an object without a listener for
  it), Node has ended the server process, and the call it stands for never settles.
\<close>

datatype js_error =
    AbortError
  | FetchError string
  | SyntaxError
  | Error string
  | Uncaught js_error

text \<open>A response as \<open>fetch\<close> resolves it: the status code and the body, parsed or not.\<close>

record response =
  status_code :: nat
  body :: "json option"

definition response_ok :: "response \<Rightarrow> bool" where
  "response_ok r = (200 \<le> status_code r \<and> status_code r \<le> 299)"

definition response_json :: "response \<Rightarrow> js_error + json" where
  "response_json r = (case body r of None \<Rightarrow> Inl SyntaxError | Some j \<Rightarrow> Inr j)"

text \<open>\<open>promise.catch(() => v)\<close>: a rejection becomes the value \<open>v\<close>.\<close>

definition catch_value :: "js_error + 'a \<Rightarrow> 'a \<Rightarrow> 'a" where
  "catch_value p v = (case p of Inl e \<Rightarrow> v | Inr x \<Rightarrow> x)"

text \<open>\<open>try { body } catch { handler }\<close> around a computation that may throw.\<close>

definition try_catch :: "js_error + 'a \<Rightarrow> (js_error \<Rightarrow> js_error + 'a) \<Rightarrow> js_error + 'a" where
  "try_catch p h = (case p of Inl e \<Rightarrow> h e | Inr x \<Rightarrow> Inr x)"

text \<open>\<open>await p\<close> followed by the rest of the block: a rejection leaves the block.\<close>

definition await :: "js_error + 'a \<Rightarrow> ('a \<Rightarrow> js_error + 'b) \<Rightarrow> js_error + 'b" where
  "await p k = (case p of Inl e \<Rightarrow> Inl e | Inr x \<Rightarrow> k x)"

text \<open>
  \<open>data?.key\<close>: \<open>None\<close> is \<open>undefined\<close>. Only an object has own properties; on
  \<open>null\<close> the optional chain stops, and a number, string, boolean or array has no
  property of the names read here.
\<close>

fun get_prop :: "json \<Rightarrow> string \<Rightarrow> json option" where
  "get_prop (JObj props) k = map_of props k"
| "get_prop _ k = None"

section \<open>Instances and the pool\<close>

text \<open>The \<open>config\<close> object of an instance; \<open>extra\<close> holds what \<open>...config\<close> spreads in.\<close>

record inst_config =
  maxMemoryMB :: nat
  workingDir :: string
  extra :: "(string \<times> json) list"

text \<open>
  The instance object of \<open>createInstance\<close>. \<open>process\<close> is the handle of the child
  process (\<open>None\<close> is \<open>null\<close>); handles are numbered in spawn order.
\<close>

record pool_instance =
  inst_id :: string
  userId :: string
  port :: nat
  password :: string
  process :: "nat option"
  status :: string
  createdAt :: nat
  lastActivity :: nat
  config :: inst_config

subsection \<open>checkHealth\<close>

text \<open>
  \<open>checkHealth(instance)\<close>. The argument \<open>fetched\<close> is how the \<open>fetch\<close> of
  \<open>/global/health\<close> ends: rejected (abort after 2000 ms, connection refused) or
  resolved with a response. \<open>!instance || !instance.port\<close> holds for a missing instance
  and for port 0.
\<close>

definition checkHealth :: "pool_instance option \<Rightarrow> js_error + response \<Rightarrow> js_error + bool" where
  "checkHealth inst fetched =
     (case inst of
        None \<Rightarrow> Inr False
      | Some i \<Rightarrow>
          if port i = 0 then Inr False
          else try_catch
            (await fetched (\<lambda>resp.
               if \<not> response_ok resp then Inr False
               else let data = catch_value (response_json resp) JNull
                    in Inr (get_prop data ''healthy'' = Some (JBool True))))
            (\<lambda>e. Inr False))"

text \<open>The boolean a caller of \<open>checkHealth\<close> reads after \<open>await\<close>.\<close>

definition isHealthy :: "pool_instance option \<Rightarrow> js_error + response \<Rightarrow> bool" where
  "isHealthy inst fetched = catch_value (checkHealth inst fetched) False"

subsection \<open>The pool state\<close>

text \<open>What \<open>emit(event, data)\<close> hands to the registered handlers.\<close>

datatype event =
    InstanceCreated pool_instance
  | InstanceDestroyed pool_instance
  | InstanceError pool_instance js_error

text \<open>
  The fields of \<open>OpenCodePoolManager\<close>. \<open>instances\<close> is the \<open>Map\<close> from user id to
  instance, as the list of its entries in insertion order (\<open>AList.update\<close> is
  \<open>Map.set\<close>, \<open>AList.delete\<close> is \<open>Map.delete\<close>, \<open>map_of\<close> is \<open>Map.get\<close>).
  Three logs record the effects on the outside: \<open>spawned\<close> the instances a child process
  was started for (the handle of a process is its position in the log), \<open>signalled\<close> the
  signals sent to processes, \<open>emitted\<close> the events handed to the handlers.
\<close>

record pool =
  instances :: "(string \<times> pool_instance) list"
  usedPorts :: "nat set"
  nextPort :: nat
  spawned :: "pool_instance list"
  signalled :: "(nat \<times> string) list"
  emitted :: "event list"

definition new_pool :: "nat \<Rightarrow> pool" where
  "new_pool lo =
     \<lparr>instances = [], usedPorts = {}, nextPort = lo, spawned = [], signalled = [], emitted = []\<rparr>"

definition HEALTH_CHECK_INTERVAL :: nat where
  "HEALTH_CHECK_INTERVAL = 30000"

definition INSTANCE_TIMEOUT :: nat where
  "INSTANCE_TIMEOUT = 5 * 60 * 1000"

text \<open>
  \<open>emit\<close> calls every handler inside \<open>try/catch\<close>, so it never throws; the handlers
  are outside the pool and only the call is recorded.
\<close>

definition emit :: "event \<Rightarrow> pool \<Rightarrow> pool" where
  "emit ev s = s\<lparr>emitted := emitted s @ [ev]\<rparr>"

subsection \<open>Port allocation\<close>

text \<open>
  \<open>allocatePort\<close>, with \<open>lo = PORT_RANGE_START\<close> and \<open>hi = PORT_RANGE_END\<close>. The
  function \<open>avail\<close> is the answer of \<open>isPortAvailable\<close> (the operating system) for a
  candidate port; it is asked only for a port that is not in \<open>usedPorts\<close>.
  \<open>maxAttempts = hi - lo\<close>: when \<open>hi < lo\<close> the JavaScript difference is negative and
  the loop body never runs, as with the truncated difference 0 here.
\<close>

function allocatePort_loop ::
  "nat \<Rightarrow> nat \<Rightarrow> (nat \<Rightarrow> bool) \<Rightarrow> nat \<Rightarrow> pool \<Rightarrow> (js_error + nat) \<times> pool" where
  "allocatePort_loop lo hi avail attempts s =
     (if attempts < hi - lo then
        let p = nextPort s;
            s1 = s\<lparr>nextPort := (if nextPort s + 1 > hi then lo else nextPort s + 1)\<rparr>
        in if p \<notin> usedPorts s1 \<and> avail p
           then (Inr p, s1\<lparr>usedPorts := insert p (usedPorts s1)\<rparr>)
           else allocatePort_loop lo hi avail (attempts + 1) s1
      else (Inl (Error ''No available ports in range''), s))"
  by pat_completeness auto
termination
  by (relation "measure (\<lambda>(lo, hi, avail, attempts, s). hi - lo - attempts)") auto

declare allocatePort_loop.simps [simp del]

definition allocatePort :: "nat \<Rightarrow> nat \<Rightarrow> (nat \<Rightarrow> bool) \<Rightarrow> pool \<Rightarrow> (js_error + nat) \<times> pool" where
  "allocatePort lo hi avail s = allocatePort_loop lo hi avail 0 s"

definition releasePort :: "nat \<Rightarrow> pool \<Rightarrow> pool" where
  "releasePort p s = s\<lparr>usedPorts := usedPorts s - {p}\<rparr>"

subsection \<open>Creating and destroying instances\<close>

text \<open>The \<open>config\<close> argument of \<open>getOrCreateInstance\<close>; \<open>None\<close> is an absent key.\<close>

record user_config =
  cfg_maxMemoryMB :: "nat option"
  cfg_workingDir :: "string option"
  cfg_extra :: "(string \<times> json) list"

text \<open>
  What the world outside the pool answers during one call: the clock (\<open>Date.now()\<close>),
  the fetch of the health check of the instance already registered, the operating
  system's answer for each candidate port, the random id and password, the working
  directory, how \<open>spawn\<close> ends, and for the polling of \<open>waitForHealthy\<close> the
  fetch outcome and the milliseconds it took, by the time the probe started.
\<close>

text \<open>
  How \<open>child_process.spawn\<close> ends. It throws at once (\<open>SpawnThrows\<close>, for arguments
  it refuses), or it returns a child object. When the operating system could not start
  the program (\<open>SpawnFails\<close>: \<open>ENOENT\<close>, \<open>EACCES\<close>, \<open>EAGAIN\<close>) the child object
  is returned all the same and the failure is emitted on it as an \<open>error\<close> event on the
  next tick.
\<close>

datatype spawn_outcome =
    SpawnStarts
  | SpawnThrows js_error
  | SpawnFails js_error

record env =
  e_now :: nat
  e_fetch :: "js_error + response"
  e_avail :: "nat \<Rightarrow> bool"
  e_id :: string
  e_password :: string
  e_cwd :: string
  e_spawn :: spawn_outcome
  e_probe :: "nat \<Rightarrow> (js_error + response) \<times> nat"

text \<open>
  \<open>{ maxMemoryMB: config.maxMemoryMB || 2048, workingDir: config.workingDir ||
  process.cwd(), ...config }\<close>: the spread comes last, so a key present in \<open>config\<close>
  wins over the default.
\<close>

definition make_config :: "string \<Rightarrow> user_config \<Rightarrow> inst_config" where
  "make_config dir c =
     (let m0 = (case cfg_maxMemoryMB c of None \<Rightarrow> 2048 | Some m \<Rightarrow> if m = 0 then 2048 else m);
          w0 = (case cfg_workingDir c of None \<Rightarrow> dir | Some w \<Rightarrow> if w = [] then dir else w)
      in \<lparr>maxMemoryMB = (case cfg_maxMemoryMB c of None \<Rightarrow> m0 | Some m \<Rightarrow> m),
          workingDir = (case cfg_workingDir c of None \<Rightarrow> w0 | Some w \<Rightarrow> w),
          extra = cfg_extra c\<rparr>)"

text \<open>
  \<open>spawnOpenCode\<close>: \<open>spawn\<close> either throws or returns the handle of a child
  process, which is recorded with the instance it was started for when the operating
  system did start it. The listeners attached are for \<open>stdout\<close>, \<open>stderr\<close> and
  \<open>exit\<close>; none is attached for \<open>error\<close>.
\<close>

definition spawnOpenCode :: "spawn_outcome \<Rightarrow> pool_instance \<Rightarrow> pool \<Rightarrow> (js_error + nat) \<times> pool" where
  "spawnOpenCode outcome i s =
     (case outcome of
        SpawnThrows e \<Rightarrow> (Inl e, s)
      | SpawnFails e \<Rightarrow> (Inr (length (spawned s)), s)
      | SpawnStarts \<Rightarrow> (Inr (length (spawned s)), s\<lparr>spawned := spawned s @ [i]\<rparr>))"

text \<open>
  \<open>waitForHealthy\<close>: a probe every 500 ms until one is healthy or \<open>timeout\<close> ms have
  passed since \<open>startTime\<close>. \<open>t\<close> is the clock; it yields the time of the healthy probe.
\<close>

function waitForHealthy ::
  "(nat \<Rightarrow> (js_error + response) \<times> nat) \<Rightarrow> pool_instance \<Rightarrow> nat \<Rightarrow> nat \<Rightarrow> nat \<Rightarrow> js_error + nat" where
  "waitForHealthy probe i timeout startTime t =
     (if t - startTime < timeout then
        (case probe t of (fetched, elapsed) \<Rightarrow>
           if try_catch (checkHealth (Some i) fetched) (\<lambda>e. Inr False) = Inr True
           then Inr (t + elapsed)
           else waitForHealthy probe i timeout startTime (t + elapsed + 500))
      else Inl (Error ''Instance failed to become healthy within timeout''))"
  by pat_completeness auto
termination
  by (relation "measure (\<lambda>(probe, i, timeout, startTime, t). startTime + timeout - t)") auto

declare waitForHealthy.simps [simp del]

text \<open>
  \<open>createInstance\<close>. \<open>startInstance\<close> is its part after the port is leased: the
  instance object and the \<open>try\<close> block, whose \<open>catch\<close> releases the port and emits
  the error. For a child that the operating system could not start, the \<open>error\<close> event
  arrives while the caller is suspended at the first \<open>await\<close> of \<open>waitForHealthy\<close>;
  the child has no listener for it, so it is thrown outside the \<open>try\<close> block and ends
  the server process with the pool as it is at that moment.
\<close>

definition startInstance ::
  "env \<Rightarrow> string \<Rightarrow> user_config \<Rightarrow> nat \<Rightarrow> pool \<Rightarrow> (js_error + pool_instance) \<times> pool" where
  "startInstance ev uid c p s1 =
     (let i = \<lparr>inst_id = e_id ev, userId = uid, port = p, password = e_password ev,
               process = None, status = ''starting'', createdAt = e_now ev,
               lastActivity = e_now ev, config = make_config (e_cwd ev) c\<rparr>
      in (case spawnOpenCode (e_spawn ev) i s1 of
            (Inl e, s2) \<Rightarrow> (Inl e, emit (InstanceError i e) (releasePort p s2))
          | (Inr h, s2) \<Rightarrow>
              let i1 = i\<lparr>process := Some h\<rparr> in
              (case e_spawn ev of
                 SpawnFails e \<Rightarrow> (Inl (Uncaught e), s2)
               | _ \<Rightarrow>
                  (case waitForHealthy (e_probe ev) i1 30000 (e_now ev) (e_now ev) of
                     Inl e \<Rightarrow> (Inl e, emit (InstanceError i1 e) (releasePort p s2))
                   | Inr t \<Rightarrow>
                       let i2 = i1\<lparr>status := ''running''\<rparr>;
                           s3 = s2\<lparr>instances := AList.update uid i2 (instances s2)\<rparr>
                       in (Inr i2, emit (InstanceCreated i2) s3)))))"

definition createInstance ::
  "nat \<Rightarrow> nat \<Rightarrow> env \<Rightarrow> string \<Rightarrow> user_config \<Rightarrow> pool \<Rightarrow> (js_error + pool_instance) \<times> pool" where
  "createInstance lo hi ev uid c s =
     (case allocatePort lo hi (e_avail ev) s of
        (Inl e, s1) \<Rightarrow> (Inl e, s1)
      | (Inr p, s1) \<Rightarrow> startInstance ev uid c p s1)"

text \<open>
  \<open>destroyInstance\<close>. \<open>SIGTERM\<close> is sent at once; the \<open>SIGKILL\<close> of the 5000 ms
  timer is a later event of the process and no part of the call.
\<close>

definition destroyInstance :: "string \<Rightarrow> pool \<Rightarrow> bool \<times> pool" where
  "destroyInstance uid s =
     (case map_of (instances s) uid of
        None \<Rightarrow> (False, s)
      | Some i \<Rightarrow>
          let s1 = (case process i of
                      None \<Rightarrow> s
                    | Some h \<Rightarrow> s\<lparr>signalled := signalled s @ [(h, ''SIGTERM'')]\<rparr>);
              s2 = releasePort (port i) s1;
              s3 = s2\<lparr>instances := AList.delete uid (instances s2)\<rparr>
          in (True, emit (InstanceDestroyed (i\<lparr>status := ''destroyed''\<rparr>)) s3))"

text \<open>\<open>getOrCreateInstance\<close>: the healthy instance with its activity refreshed, or a new one.\<close>

definition getOrCreateInstance ::
  "nat \<Rightarrow> nat \<Rightarrow> env \<Rightarrow> string \<Rightarrow> user_config \<Rightarrow> pool \<Rightarrow> (js_error + pool_instance) \<times> pool" where
  "getOrCreateInstance lo hi ev uid c s =
     (case map_of (instances s) uid of
        Some i \<Rightarrow>
          if isHealthy (Some i) (e_fetch ev)
          then let i1 = i\<lparr>lastActivity := e_now ev\<rparr>
               in (Inr i1, s\<lparr>instances := AList.update uid i1 (instances s)\<rparr>)
          else createInstance lo hi ev uid c (snd (destroyInstance uid s))
      | None \<Rightarrow> createInstance lo hi ev uid c s)"

definition getInstance :: "string \<Rightarrow> pool \<Rightarrow> pool_instance option" where
  "getInstance uid s = map_of (instances s) uid"

subsection \<open>The periodic health check\<close>

text \<open>
  One run of the timer callback of \<open>startHealthChecks\<close> at time \<open>t\<close>, over the entries
  of the map; \<open>health\<close> is the fetch outcome of the check of each user's instance.
\<close>

fun sweep_entries ::
  "nat \<Rightarrow> (string \<Rightarrow> js_error + response) \<Rightarrow> (string \<times> pool_instance) list \<Rightarrow> pool \<Rightarrow> pool" where
  "sweep_entries t health [] s = s"
| "sweep_entries t health ((uid, i) # rest) s =
     (if status i = ''stopping'' \<or> status i = ''destroyed'' then sweep_entries t health rest s
      else if \<not> isHealthy (Some i) (health uid)
           then sweep_entries t health rest (snd (destroyInstance uid s))
      else if t - lastActivity i > INSTANCE_TIMEOUT
           then sweep_entries t health rest (snd (destroyInstance uid s))
      else sweep_entries t health rest s)"

definition sweep :: "nat \<Rightarrow> (string \<Rightarrow> js_error + response) \<Rightarrow> pool \<Rightarrow> pool" where
  "sweep t health s = sweep_entries t health (instances s) s"

text \<open>
  Two further writers of a registered instance: the \<open>exit\<close> handler of its process
  (\<open>status\<close> becomes \<open>stopped\<close> for exit code 0 and \<open>error\<close> otherwise) and the
  activity route (\<open>instance.lastActivity = Date.now()\<close> for the instance with the id).
\<close>

definition process_exit :: "nat \<Rightarrow> nat \<Rightarrow> pool \<Rightarrow> pool" where
  "process_exit h code s =
     s\<lparr>instances :=
         map (\<lambda>(uid, i). (uid, if process i = Some h
                               then i\<lparr>status := (if code = 0 then ''stopped'' else ''error'')\<rparr>
                               else i))
             (instances s)\<rparr>"

fun findInstanceById :: "string \<Rightarrow> (string \<times> pool_instance) list \<Rightarrow> pool_instance option" where
  "findInstanceById ident [] = None"
| "findInstanceById ident ((uid, i) # rest) =
     (if inst_id i = ident then Some i else findInstanceById ident rest)"

text \<open>
  The activity route: the first instance with the id is found; a requester who is not its
  owner is refused, for the owner the object found is written.
\<close>

fun touch_instance ::
  "string \<Rightarrow> string \<Rightarrow> nat \<Rightarrow> (string \<times> pool_instance) list \<Rightarrow> (string \<times> pool_instance) list" where
  "touch_instance requester ident t [] = []"
| "touch_instance requester ident t ((uid, i) # rest) =
     (if inst_id i = ident
      then (if userId i \<noteq> requester then (uid, i) # rest
            else (uid, i\<lparr>lastActivity := t\<rparr>) # rest)
      else (uid, i) # touch_instance requester ident t rest)"

definition report_activity :: "string \<Rightarrow> string \<Rightarrow> nat \<Rightarrow> pool \<Rightarrow> pool" where
  "report_activity requester ident t s =
     s\<lparr>instances := touch_instance requester ident t (instances s)\<rparr>"

subsection \<open>Sequences of operations\<close>

text \<open>
  The operations on the pool, each with what the outside world answers during it, and
  the pool after a sequence of them, one after the other. A call that ends with
  \<open>Uncaught\<close> leaves the pool of a process that has ended; operations after it in a
  sequence act on that pool as if the process had been kept alive.
\<close>

datatype operation =
    GetOrCreate env string user_config
  | Destroy string
  | Sweep nat "string \<Rightarrow> js_error + response"
  | AllocatePort "nat \<Rightarrow> bool"
  | ProcessExit nat nat
  | ReportActivity string string nat

fun exec :: "nat \<Rightarrow> nat \<Rightarrow> operation \<Rightarrow> pool \<Rightarrow> pool" where
  "exec lo hi (GetOrCreate ev uid c) s = snd (getOrCreateInstance lo hi ev uid c s)"
| "exec lo hi (Destroy uid) s = snd (destroyInstance uid s)"
| "exec lo hi (Sweep t health) s = sweep t health s"
| "exec lo hi (AllocatePort avail) s = snd (allocatePort lo hi avail s)"
| "exec lo hi (ProcessExit h code) s = process_exit h code s"
| "exec lo hi (ReportActivity requester ident t) s = report_activity requester ident t s"

fun run :: "nat \<Rightarrow> nat \<Rightarrow> operation list \<Rightarrow> pool \<Rightarrow> pool" where
  "run lo hi [] s = s"
| "run lo hi (x # xs) s = run lo hi xs (exec lo hi x s)"

text \<open>The live (not destroyed) instances in the map, of a tenant and on a port.\<close>

definition live_instances :: "pool \<Rightarrow> pool_instance list" where
  "live_instances s = filter (\<lambda>i. status i \<noteq> ''destroyed'') (map snd (instances s))"

definition instances_of_tenant :: "string \<Rightarrow> pool \<Rightarrow> pool_instance list" where
  "instances_of_tenant tenant s = filter (\<lambda>i. userId i = tenant) (live_instances s)"


subsection \<open>The instance listing\<close>

definition sanitizeInstance :: "pool_instance \<Rightarrow> json" where
  "sanitizeInstance i =
     JObj [(''id'', JStr (inst_id i)),
           (''userId'', JStr (userId i)),
           (''port'', JNum (int (port i))),
           (''status'', JStr (status i)),
           (''createdAt'', JNum (int (createdAt i))),
           (''lastActivity'', JNum (int (lastActivity i))),
           (''config'', JObj [(''maxMemoryMB'', JNum (int (maxMemoryMB (config i))))])]"

definition listInstances :: "pool \<Rightarrow> json list" where
  "listInstances s =
     map (\<lambda>i. JObj [(''id'', JStr (inst_id i)),
                     (''userId'', JStr (userId i)),
                     (''port'', JNum (int (port i))),
                     (''status'', JStr (status i)),
                     (''createdAt'', JNum (int (createdAt i))),
                     (''lastActivity'', JNum (int (lastActivity i))),
                     (''config'', JObj [(''maxMemoryMB'', JNum (int (maxMemoryMB (config i))))])])
         (map snd (instances s))"

record stats =
  st_totalInstances :: nat
  st_runningInstances :: nat
  st_usedPorts :: nat
  st_availablePorts :: int
  st_instances :: "json list"

definition getStats :: "nat \<Rightarrow> nat \<Rightarrow> pool \<Rightarrow> stats" where
  "getStats lo hi s =
     (let listed = listInstances s
      in \<lparr>st_totalInstances = length listed,
          st_runningInstances =
            length (filter (\<lambda>i. get_prop i ''status'' = Some (JStr ''running'')) listed),
          st_usedPorts = card (usedPorts s),
          st_availablePorts = int hi - int lo - int (card (usedPorts s)),
          st_instances = listed\<rparr>)"

section \<open>Role-based permissions\<close>

text \<open>\<open>s.split(c)\<close> for a one-character separator.\<close>

fun split_on :: "char \<Rightarrow> string \<Rightarrow> string list" where
  "split_on c [] = [[]]"
| "split_on c (x # xs) =
     (if x = c then [] # split_on c xs
      else (case split_on c xs of
              [] \<Rightarrow> [[x]]
            | y # ys \<Rightarrow> (x # y) # ys))"

record user =
  user_id :: string
  role :: "string option"

record role_def =
  role_name :: string
  permissions :: "string list option"
  description :: string

definition WILDCARD_PERMISSION :: string where
  "WILDCARD_PERMISSION = ''*''"

text \<open>\<open>role.permissions || []\<close>.\<close>

definition role_permissions :: "role_def \<Rightarrow> string list" where
  "role_permissions r = (case permissions r of None \<Rightarrow> [] | Some ps \<Rightarrow> ps)"

text \<open>
  \<open>hasPermission(user, permission)\<close>; \<open>getRole\<close> is the lookup in the stored roles
  (\<open>data.roles[roleName] || null\<close>). \<open>!user.role\<close> holds for a missing role and for
  the empty string.
\<close>

definition hasPermission :: "(string \<Rightarrow> role_def option) \<Rightarrow> user option \<Rightarrow> string \<Rightarrow> bool" where
  "hasPermission getRole usr permission =
     (case usr of
        None \<Rightarrow> False
      | Some u \<Rightarrow>
          (case role u of
             None \<Rightarrow> False
           | Some rn \<Rightarrow>
               if rn = [] then False
               else if rn = ''admin'' then True
               else (case getRole rn of
                       None \<Rightarrow> False
                     | Some r \<Rightarrow>
                         let perms = role_permissions r in
                         if WILDCARD_PERMISSION \<in> set perms then True
                         else if permission \<in> set perms then True
                         else (case split_on CHR '':'' permission of
                                 [] \<Rightarrow> ''undefined:*'' \<in> set perms
                               | scope # _ \<Rightarrow> (scope @ '':*'') \<in> set perms))))"

subsection \<open>The listing route\<close>

text \<open>
  The handler of \<open>GET /api/instances\<close> for the authenticated user \<open>usr\<close>
  (\<open>requireAuth\<close> has run); \<open>query_all\<close> is \<open>req.query.all\<close>. It yields the body
  handed to \<open>res.json\<close>.
\<close>

definition list_instances_handler ::
  "(string \<Rightarrow> role_def option) \<Rightarrow> nat \<Rightarrow> nat \<Rightarrow> user \<Rightarrow> string option \<Rightarrow> pool \<Rightarrow> json" where
  "list_instances_handler getRole lo hi usr query_all s =
     (let canViewAll = hasPermission getRole (Some usr) ''instance:admin''
      in if canViewAll \<and> query_all = Some ''true''
         then let st = getStats lo hi s
              in JObj [(''instances'', JArr (st_instances st)),
                       (''stats'', JObj [(''totalInstances'', JNum (int (st_totalInstances st))),
                                         (''runningInstances'', JNum (int (st_runningInstances st))),
                                         (''usedPorts'', JNum (int (st_usedPorts st))),
                                         (''availablePorts'', JNum (st_availablePorts st))])]
         else let found = getInstance (user_id usr) s
              in JObj [(''instances'',
                          JArr (case found of None \<Rightarrow> [] | Some i \<Rightarrow> [sanitizeInstance i])),
                       (''stats'', JNull)])"

text \<open>The pool with every stored credential replaced; \<open>f\<close> picks the new one.\<close>

definition with_passwords :: "(string \<Rightarrow> pool_instance \<Rightarrow> string) \<Rightarrow> pool \<Rightarrow> pool" where
  "with_passwords f s =
     s\<lparr>instances := map (\<lambda>(uid, i). (uid, i\<lparr>password := f uid i\<rparr>)) (instances s)\<rparr>"

fun object_keys :: "json \<Rightarrow> string list" where
  "object_keys (JObj props) = map fst props"
| "object_keys _ = []"

section \<open>Tenant paths\<close>

text \<open>
  Node's \<open>path\<close> module on POSIX. \<open>normalize_segments\<close> is the loop of
  \<open>normalizeString\<close> over the pieces between slashes: empty pieces and \<open>.\<close> are
  dropped, \<open>..\<close> removes the last kept piece, and at the root it is dropped
  (absolute path) or kept (\<open>allowAboveRoot\<close>). The accumulator is in reverse order.
\<close>

fun normalize_segments :: "bool \<Rightarrow> string list \<Rightarrow> string list \<Rightarrow> string list" where
  "normalize_segments allow acc [] = rev acc"
| "normalize_segments allow acc (s # ss) =
     (if s = [] \<or> s = ''.'' then normalize_segments allow acc ss
      else if s = ''..'' then
        (case acc of
           [] \<Rightarrow> normalize_segments allow (if allow then [''..''] else []) ss
         | a # as \<Rightarrow>
             if a = ''..'' then normalize_segments allow (if allow then ''..'' # acc else acc) ss
             else normalize_segments allow as ss)
      else normalize_segments allow (s # acc) ss)"

fun join_slash :: "string list \<Rightarrow> string" where
  "join_slash [] = []"
| "join_slash [s] = s"
| "join_slash (s # ss) = s @ ''/'' @ join_slash ss"

definition normalizeString :: "string \<Rightarrow> bool \<Rightarrow> string" where
  "normalizeString p allow = join_slash (normalize_segments allow [] (split_on CHR ''/'' p))"

definition isAbsolute :: "string \<Rightarrow> bool" where
  "isAbsolute p = (case p of [] \<Rightarrow> False | c # _ \<Rightarrow> c = CHR ''/'')"

definition trailingSeparator :: "string \<Rightarrow> bool" where
  "trailingSeparator p = (case rev p of [] \<Rightarrow> False | c # _ \<Rightarrow> c = CHR ''/'')"

definition path_normalize :: "string \<Rightarrow> string" where
  "path_normalize p =
     (if p = [] then ''.''
      else let n = normalizeString p (\<not> isAbsolute p) in
        if n = [] then (if isAbsolute p then ''/'' else if trailingSeparator p then ''./'' else ''.'')
        else let n' = (if trailingSeparator p then n @ ''/'' else n)
             in if isAbsolute p then ''/'' @ n' else n')"

definition path_join :: "string list \<Rightarrow> string" where
  "path_join args =
     (let joined = filter (\<lambda>a. a \<noteq> []) args
      in if joined = [] then ''.'' else path_normalize (join_slash joined))"

text \<open>
  \<open>path.resolve(...args)\<close>: the arguments are read from the right, then the working
  directory, until the path is absolute.
\<close>

fun resolve_loop :: "string list \<Rightarrow> string \<Rightarrow> bool \<Rightarrow> string \<times> bool" where
  "resolve_loop [] resolvedPath resolvedAbsolute = (resolvedPath, resolvedAbsolute)"
| "resolve_loop (p # ps) resolvedPath resolvedAbsolute =
     (if resolvedAbsolute then (resolvedPath, resolvedAbsolute)
      else if p = [] then resolve_loop ps resolvedPath resolvedAbsolute
      else resolve_loop ps (p @ ''/'' @ resolvedPath) (isAbsolute p))"

definition path_resolve :: "string \<Rightarrow> string list \<Rightarrow> string" where
  "path_resolve cwd args =
     (case resolve_loop (rev args @ [cwd]) [] False of
        (resolvedPath, resolvedAbsolute) \<Rightarrow>
          let n = normalizeString resolvedPath (\<not> resolvedAbsolute)
          in if resolvedAbsolute then ''/'' @ n
             else if n \<noteq> [] then n else ''.'')"

text \<open>
  \<open>getUserDataPath\<close> of the user storage; \<open>dataDir\<close> is \<open>MULTIUSER_DATA_DIR\<close> and
  \<open>cwd\<close> the working directory of the server process.
\<close>

definition getUserDataPath :: "string \<Rightarrow> string \<Rightarrow> string" where
  "getUserDataPath dataDir uid = path_join [dataDir, ''users'', uid]"

definition getTenantPath :: "string \<Rightarrow> string \<Rightarrow> string \<Rightarrow> string \<Rightarrow> js_error + string" where
  "getTenantPath dataDir cwd tenantId filePath =
     (let tenantRoot = getUserDataPath dataDir tenantId;
          resolved = path_resolve cwd [tenantRoot, filePath]
      in if \<not> prefix tenantRoot resolved then Inl (Error ''Path traversal detected'')
         else Inr resolved)"

definition isPathInTenant :: "string \<Rightarrow> string \<Rightarrow> string \<Rightarrow> string \<Rightarrow> bool" where
  "isPathInTenant dataDir cwd tenantId checkPath =
     (let tenantRoot = getUserDataPath dataDir tenantId;
          resolved = path_resolve cwd [checkPath]
      in prefix tenantRoot resolved)"

text \<open>
  What it means for a path to lie within a directory: the directory's components are
  the first components of the path (the path is the directory or a descendant of it).
\<close>

definition path_components :: "string \<Rightarrow> string list" where
  "path_components p = filter (\<lambda>s. s \<noteq> []) (split_on CHR ''/'' p)"

definition within_directory :: "string \<Rightarrow> string \<Rightarrow> bool" where
  "within_directory dir p = prefix (path_components dir) (path_components p)"

section \<open>Overlapping callers of getOrCreateInstance\<close>

text \<open>
  \<open>getOrCreateInstance\<close> is an \<open>async\<close> function: at an \<open>await\<close> that waits for the
  outside world the caller is suspended and other callers run on the same pool. A caller
  is suspended in \<open>allocatePort\<close> at \<open>await this.isPortAvailable(port)\<close> (with the
  candidate port and the attempts made so far) and in \<open>createInstance\<close> at
  \<open>await this.waitForHealthy(instance)\<close> (with the instance whose process it has
  spawned). The health check of an instance already in the map is taken together with
  the step that starts the call.
\<close>

datatype call_state =
    NotStarted
  | AwaitingPort nat nat
  | AwaitingHealthy pool_instance
  | Returned "js_error + pool_instance"

text \<open>The loop of \<open>allocatePort\<close> up to the next \<open>await\<close>: leased ports are skipped.\<close>

function allocatePort_scan :: "nat \<Rightarrow> nat \<Rightarrow> nat \<Rightarrow> pool \<Rightarrow> call_state \<times> pool" where
  "allocatePort_scan lo hi attempts s =
     (if attempts < hi - lo then
        let p = nextPort s;
            s1 = s\<lparr>nextPort := (if nextPort s + 1 > hi then lo else nextPort s + 1)\<rparr>
        in if p \<notin> usedPorts s1 then (AwaitingPort p attempts, s1)
           else allocatePort_scan lo hi (attempts + 1) s1
      else (Returned (Inl (Error ''No available ports in range'')), s))"
  by pat_completeness auto
termination
  by (relation "measure (\<lambda>(lo, hi, attempts, s). hi - lo - attempts)") auto

declare allocatePort_scan.simps [simp del]

text \<open>
  One step of a caller for user \<open>uid\<close>: from where it is suspended to its next
  suspension or to its return, with the answers \<open>ev\<close> of the outside world.
  \<open>waitForHealthy\<close> reads its start time in the synchronous block that has just
  written \<open>createdAt\<close>, so the polling starts at \<open>createdAt\<close>.
\<close>

definition resume_call ::
  "nat \<Rightarrow> nat \<Rightarrow> env \<Rightarrow> string \<Rightarrow> user_config \<Rightarrow> call_state \<Rightarrow> pool \<Rightarrow> call_state \<times> pool" where
  "resume_call lo hi ev uid c st s =
     (case st of
        NotStarted \<Rightarrow>
          (case map_of (instances s) uid of
             Some i \<Rightarrow>
               if isHealthy (Some i) (e_fetch ev)
               then let i1 = i\<lparr>lastActivity := e_now ev\<rparr>
                    in (Returned (Inr i1), s\<lparr>instances := AList.update uid i1 (instances s)\<rparr>)
               else allocatePort_scan lo hi 0 (snd (destroyInstance uid s))
           | None \<Rightarrow> allocatePort_scan lo hi 0 s)
      | AwaitingPort p attempts \<Rightarrow>
          if e_avail ev p then
            let s1 = s\<lparr>usedPorts := insert p (usedPorts s)\<rparr>;
                i = \<lparr>inst_id = e_id ev, userId = uid, port = p, password = e_password ev,
                     process = None, status = ''starting'', createdAt = e_now ev,
                     lastActivity = e_now ev, config = make_config (e_cwd ev) c\<rparr>
            in (case spawnOpenCode (e_spawn ev) i s1 of
                  (Inl e, s2) \<Rightarrow> (Returned (Inl e), emit (InstanceError i e) (releasePort p s2))
                | (Inr h, s2) \<Rightarrow>
                    (case e_spawn ev of
                       SpawnFails e \<Rightarrow> (Returned (Inl (Uncaught e)), s2)
                     | _ \<Rightarrow> (AwaitingHealthy (i\<lparr>process := Some h\<rparr>), s2)))
          else allocatePort_scan lo hi (attempts + 1) s
      | AwaitingHealthy i1 \<Rightarrow>
          (case waitForHealthy (e_probe ev) i1 30000 (createdAt i1) (createdAt i1) of
             Inl e \<Rightarrow> (Returned (Inl e), emit (InstanceError i1 e) (releasePort (port i1) s))
           | Inr t \<Rightarrow>
               let i2 = i1\<lparr>status := ''running''\<rparr>;
                   s3 = s\<lparr>instances := AList.update uid i2 (instances s)\<rparr>
               in (Returned (Inr i2), emit (InstanceCreated i2) s3))
      | Returned r \<Rightarrow> (Returned r, s))"

text \<open>
  Several callers for the same user on one pool. A schedule names, step by step, the
  caller that runs next and the answers it gets.
\<close>

fun run_schedule ::
  "nat \<Rightarrow> nat \<Rightarrow> string \<Rightarrow> user_config \<Rightarrow> (nat \<times> env) list \<Rightarrow>
   call_state list \<times> pool \<Rightarrow> call_state list \<times> pool" where
  "run_schedule lo hi uid c [] (callers, s) = (callers, s)"
| "run_schedule lo hi uid c ((k, ev) # rest) (callers, s) =
     (if k < length callers
      then (case resume_call lo hi ev uid c (callers ! k) s of
              (st, s1) \<Rightarrow> run_schedule lo hi uid c rest (callers[k := st], s1))
      else run_schedule lo hi uid c rest (callers, s))"


text \<open>Callers one after the other: each call returns before the next starts.\<close>

fun call_all ::
  "nat \<Rightarrow> nat \<Rightarrow> string \<Rightarrow> user_config \<Rightarrow> env list \<Rightarrow> pool \<Rightarrow>
   (js_error + pool_instance) list \<times> pool" where
  "call_all lo hi uid c [] s = ([], s)"
| "call_all lo hi uid c (ev # evs) s =
     (case getOrCreateInstance lo hi ev uid c s of
        (r, s1) \<Rightarrow> (case call_all lo hi uid c evs s1 of (rs, s2) \<Rightarrow> (r # rs, s2)))"

section \<open>The invariant of the pool\<close>

text \<open>
  The invariant of the pool: the map has one entry per key, the instance stored for a
  user carries that user's id and a port of the leased set, and no two entries share a
  port.
\<close>

definition pool_inv :: "pool \<Rightarrow> bool" where
  "pool_inv s =
     (distinct (map fst (instances s)) \<and>
      (\<forall>u i. map_of (instances s) u = Some i \<longrightarrow> userId i = u \<and> port i \<in> usedPorts s) \<and>
      (\<forall>u1 i1 u2 i2. map_of (instances s) u1 = Some i1 \<and> map_of (instances s) u2 = Some i2 \<and>
           port i1 = port i2 \<longrightarrow> u1 = u2))"

section \<open>Scenario data\<close>

text \<open>Stored roles with one role beside \<open>admin\<close>.\<close>

definition example_roles :: "string \<Rightarrow> role_def option" where
  "example_roles n =
     (if n = ''developer''
      then Some \<lparr>role_name = ''Developer'',
                 permissions = Some [''project:*'', ''session:read''],
                 description = ''Standard development access''\<rparr>
      else None)"




definition default_config :: user_config where
  "default_config = \<lparr>cfg_maxMemoryMB = None, cfg_workingDir = None, cfg_extra = []\<rparr>"

definition three_leased :: "nat \<Rightarrow> nat \<Rightarrow> pool" where
  "three_leased lo hi =
     snd (allocatePort lo hi (\<lambda>p. True)
       (snd (allocatePort lo hi (\<lambda>p. True)
         (snd (allocatePort lo hi (\<lambda>p. True) (new_pool lo))))))"

text \<open>Scenario data: a worker that answers its health check, for two callers.\<close>

definition reports_healthy :: "js_error + response" where
  "reports_healthy = Inr \<lparr>status_code = 200, body = Some (JObj [(''healthy'', JBool True)])\<rparr>"

definition caller_env :: "nat \<Rightarrow> string \<Rightarrow> string \<Rightarrow> env" where
  "caller_env t ident pw =
     \<lparr>e_now = t, e_fetch = reports_healthy, e_avail = (\<lambda>p. True), e_id = ident,
      e_password = pw, e_cwd = ''/srv/app'', e_spawn = SpawnStarts,
      e_probe = (\<lambda>t. (reports_healthy, 120))\<rparr>"

definition two_callers :: "call_state list \<times> pool" where
  "two_callers =
     run_schedule 9000 10000 ''user_1'' default_config
       [(0, caller_env 1000 ''instance_a'' ''pw_a''), (0, caller_env 1000 ''instance_a'' ''pw_a''),
        (1, caller_env 1400 ''instance_b'' ''pw_b''), (1, caller_env 1400 ''instance_b'' ''pw_b''),
        (0, caller_env 1000 ''instance_a'' ''pw_a''), (1, caller_env 1400 ''instance_b'' ''pw_b'')]
       ([NotStarted, NotStarted], new_pool 9000)"



text \<open>Three callers in turn, and the instance the first of them creates.\<close>

definition three_in_turn :: "(js_error + pool_instance) list \<times> pool" where
  "three_in_turn =
     call_all 9000 10000 ''user_1'' default_config
       [caller_env 1000 ''instance_a'' ''pw_a'', caller_env 1400 ''instance_b'' ''pw_b'',
        caller_env 1800 ''instance_c'' ''pw_c'']
       (new_pool 9000)"

definition instance_a :: pool_instance where
  "instance_a =
     \<lparr>inst_id = ''instance_a'', userId = ''user_1'', port = 9000, password = ''pw_a'',
      process = Some 0, status = ''running'', createdAt = 1000, lastActivity = 1000,
      config = \<lparr>maxMemoryMB = 2048, workingDir = ''/srv/app'', extra = []\<rparr>\<rparr>"

section \<open>Health probe: properties\<close>

lemma checkHealth_total: "\<exists>b. checkHealth inst fetched = Inr b"
  by (auto simp: checkHealth_def try_catch_def await_def Let_def
           split: option.splits sum.splits)

lemma checkHealth_rejected: "checkHealth inst (Inl e) = Inr False"
  by (simp add: checkHealth_def try_catch_def await_def split: option.splits)

lemma get_prop_healthy:
  "(get_prop data ''healthy'' = Some (JBool True)) =
   (\<exists>props. data = JObj props \<and> map_of props ''healthy'' = Some (JBool True))"
  by (cases data) simp_all

lemma checkHealth_resolved:
  "checkHealth inst (Inr resp) =
     Inr ((\<exists>i. inst = Some i \<and> port i \<noteq> 0) \<and> response_ok resp \<and>
          (\<exists>props. body resp = Some (JObj props) \<and>
                   map_of props ''healthy'' = Some (JBool True)))"
proof (cases inst)
  case None
  then show ?thesis by (simp add: checkHealth_def)
next
  case (Some i)
  show ?thesis
  proof (cases "body resp")
    case None
    with Some show ?thesis
      by (simp add: checkHealth_def try_catch_def await_def response_json_def catch_value_def)
  next
    case (Some j)
    with \<open>inst = Some i\<close> show ?thesis
      by (simp add: checkHealth_def try_catch_def await_def response_json_def catch_value_def
                    get_prop_healthy)
  qed
qed

text \<open>
  C4. \<open>checkHealth\<close> always resolves to a boolean and never rejects. A rejected fetch
  (timeout abort, refused connection) gives false, and so does a response outside 2xx
  and a body that is not JSON. It gives true exactly for an instance with a port, a 2xx
  response and a JSON object body whose \<open>healthy\<close> property is the boolean true; HTTP 200
  with the body \<open>{"healthy": false}\<close> gives false.
\<close>

theorem checkHealth_contract:
  "(\<exists>b. checkHealth inst fetched = Inr b) \<and>
   checkHealth inst (Inl e) = Inr False \<and>
   checkHealth inst (Inr resp) =
     Inr ((\<exists>i. inst = Some i \<and> port i \<noteq> 0) \<and>
          200 \<le> status_code resp \<and> status_code resp \<le> 299 \<and>
          (\<exists>props. body resp = Some (JObj props) \<and>
                   map_of props ''healthy'' = Some (JBool True))) \<and>
   checkHealth inst (Inr \<lparr>status_code = code, body = None\<rparr>) = Inr False \<and>
   checkHealth inst (Inr \<lparr>status_code = 500, body = b\<rparr>) = Inr False \<and>
   checkHealth inst
     (Inr \<lparr>status_code = 200, body = Some (JObj [(''healthy'', JBool False)])\<rparr>) = Inr False"
  using checkHealth_total [of inst fetched] checkHealth_rejected [of inst e]
  by (simp add: checkHealth_resolved response_ok_def)

section \<open>Permissions: properties\<close>

lemma split_on_first:
  "\<exists>rest. split_on c s = takeWhile (\<lambda>x. x \<noteq> c) s # rest"
  by (induction s) auto

lemma hasPermission_role:
  assumes "role u = Some rn" "rn \<noteq> ''admin''" "rn \<noteq> []"
  shows "hasPermission getRole (Some u) p =
           (\<exists>r. getRole rn = Some r \<and>
                (''*'' \<in> set (role_permissions r) \<or> p \<in> set (role_permissions r) \<or>
                 (takeWhile (\<lambda>c. c \<noteq> CHR '':'') p @ '':*'') \<in> set (role_permissions r)))"
proof -
  obtain rest where sp: "split_on CHR '':'' p = takeWhile (\<lambda>c. c \<noteq> CHR '':'') p # rest"
    using split_on_first by blast
  show ?thesis
    using assms by (auto simp: hasPermission_def WILDCARD_PERMISSION_def sp split: option.splits)
qed

text \<open>
  C10. \<open>hasPermission\<close> is true for the role \<open>admin\<close> whatever the permission. For any
  other (non-empty) role it is true exactly when the role is stored and its permission list
  holds \<open>*\<close>, the permission itself, or \<open>scope:*\<close> for the part of the permission before
  its first colon. It is false without a user, without a role (missing or empty), and for
  a role other than \<open>admin\<close> that is not stored.
\<close>

theorem hasPermission_spec:
  "(role u = Some ''admin'' \<longrightarrow> hasPermission getRole (Some u) p) \<and>
   (role u = Some rn \<and> rn \<noteq> ''admin'' \<and> rn \<noteq> [] \<longrightarrow>
      hasPermission getRole (Some u) p =
        (\<exists>r. getRole rn = Some r \<and>
             (''*'' \<in> set (role_permissions r) \<or> p \<in> set (role_permissions r) \<or>
              (takeWhile (\<lambda>c. c \<noteq> CHR '':'') p @ '':*'') \<in> set (role_permissions r)))) \<and>
   \<not> hasPermission getRole None p \<and>
   (role u = None \<or> role u = Some [] \<longrightarrow> \<not> hasPermission getRole (Some u) p) \<and>
   (role u = Some rn \<and> rn \<noteq> ''admin'' \<and> getRole rn = None \<longrightarrow>
      \<not> hasPermission getRole (Some u) p)"
proof (intro conjI impI)
  assume "role u = Some ''admin''"
  then show "hasPermission getRole (Some u) p" by (simp add: hasPermission_def)
next
  assume "role u = Some rn \<and> rn \<noteq> ''admin'' \<and> rn \<noteq> []"
  then show "hasPermission getRole (Some u) p =
        (\<exists>r. getRole rn = Some r \<and>
             (''*'' \<in> set (role_permissions r) \<or> p \<in> set (role_permissions r) \<or>
              (takeWhile (\<lambda>c. c \<noteq> CHR '':'') p @ '':*'') \<in> set (role_permissions r)))"
    using hasPermission_role by blast
next
  show "\<not> hasPermission getRole None p" by (simp add: hasPermission_def)
next
  assume "role u = None \<or> role u = Some []"
  then show "\<not> hasPermission getRole (Some u) p" by (auto simp: hasPermission_def)
next
  assume "role u = Some rn \<and> rn \<noteq> ''admin'' \<and> getRole rn = None"
  then show "\<not> hasPermission getRole (Some u) p" by (auto simp: hasPermission_def)
qed

theorem hasPermission_spec_witness:
  "hasPermission example_roles (Some \<lparr>user_id = ''user_1'', role = Some ''admin''\<rparr>)
     ''system:config'' \<and>
   hasPermission example_roles (Some \<lparr>user_id = ''user_2'', role = Some ''developer''\<rparr>)
     ''project:write'' \<and>
   \<not> hasPermission example_roles (Some \<lparr>user_id = ''user_2'', role = Some ''developer''\<rparr>)
     ''session:write'' \<and>
   \<not> hasPermission example_roles (Some \<lparr>user_id = ''user_3'', role = Some ''''\<rparr>)
     ''project:read'' \<and>
   \<not> hasPermission example_roles (Some \<lparr>user_id = ''user_4'', role = Some ''guest''\<rparr>)
     ''project:read''"
  using hasPermission_spec [of "\<lparr>user_id = ''user_1'', role = Some ''admin''\<rparr>"
          example_roles "''system:config''" "''admin''"]
        hasPermission_spec [of "\<lparr>user_id = ''user_2'', role = Some ''developer''\<rparr>"
          example_roles "''project:write''" "''developer''"]
        hasPermission_spec [of "\<lparr>user_id = ''user_2'', role = Some ''developer''\<rparr>"
          example_roles "''session:write''" "''developer''"]
        hasPermission_spec [of "\<lparr>user_id = ''user_3'', role = Some ''''\<rparr>"
          example_roles "''project:read''" "''''"]
        hasPermission_spec [of "\<lparr>user_id = ''user_4'', role = Some ''guest''\<rparr>"
          example_roles "''project:read''" "''guest''"]
  by (simp add: example_roles_def role_permissions_def)

section \<open>Port allocation and creation failure: properties\<close>

lemma allocatePort_loop_result:
  "allocatePort_loop lo hi avail n s = (r, s') \<Longrightarrow>
     instances s' = instances s \<and> spawned s' = spawned s \<and>
     signalled s' = signalled s \<and> emitted s' = emitted s \<and>
     (case r of
        Inl e \<Rightarrow> e = Error ''No available ports in range'' \<and> usedPorts s' = usedPorts s
      | Inr p \<Rightarrow> p \<notin> usedPorts s \<and> usedPorts s' = insert p (usedPorts s) \<and> avail p)"
proof (induction lo hi avail n s arbitrary: r s' rule: allocatePort_loop.induct)
  case (1 lo hi avail attempts s)
  show ?case
  proof (cases "attempts < hi - lo")
    case False
    with "1.prems" show ?thesis
      by (auto simp: allocatePort_loop.simps [of lo hi avail attempts s])
  next
    case True
    define s1 where "s1 = s\<lparr>nextPort := (if nextPort s + 1 > hi then lo else nextPort s + 1)\<rparr>"
    show ?thesis
    proof (cases "nextPort s \<notin> usedPorts s \<and> avail (nextPort s)")
      case yes: True
      with True "1.prems" show ?thesis
        by (auto simp: allocatePort_loop.simps [of lo hi avail attempts s] Let_def)
    next
      case no: False
      with True "1.prems" have rec: "allocatePort_loop lo hi avail (attempts + 1) s1 = (r, s')"
        by (auto simp: allocatePort_loop.simps [of lo hi avail attempts s] Let_def s1_def)
      have "instances s' = instances s1 \<and> spawned s' = spawned s1 \<and>
         signalled s' = signalled s1 \<and> emitted s' = emitted s1 \<and>
         (case r of
            Inl e \<Rightarrow> e = Error ''No available ports in range'' \<and> usedPorts s' = usedPorts s1
          | Inr p \<Rightarrow> p \<notin> usedPorts s1 \<and> usedPorts s' = insert p (usedPorts s1) \<and> avail p)"
        using "1.IH" [of "nextPort s" s1 r s'] True no rec by (simp add: s1_def)
      then show ?thesis by (auto simp: s1_def split: sum.splits)
    qed
  qed
qed

lemma allocatePort_failed:
  assumes "allocatePort lo hi avail s = (Inl e, s')"
  shows "e = Error ''No available ports in range'' \<and> instances s' = instances s \<and>
         usedPorts s' = usedPorts s \<and> spawned s' = spawned s \<and>
         signalled s' = signalled s \<and> emitted s' = emitted s"
  using allocatePort_loop_result [of lo hi avail 0 s "Inl e" s'] assms
  by (simp add: allocatePort_def)

lemma allocatePort_leased:
  assumes "allocatePort lo hi avail s = (Inr p, s')"
  shows "p \<notin> usedPorts s \<and> usedPorts s' = insert p (usedPorts s) \<and> avail p \<and>
         instances s' = instances s \<and> spawned s' = spawned s \<and>
         signalled s' = signalled s \<and> emitted s' = emitted s"
  using allocatePort_loop_result [of lo hi avail 0 s "Inr p" s'] assms
  by (simp add: allocatePort_def)



lemma destroyInstance_state:
  "instances (snd (destroyInstance uid s)) = AList.delete uid (instances s) \<and>
   usedPorts (snd (destroyInstance uid s)) =
     (case map_of (instances s) uid of None \<Rightarrow> usedPorts s | Some i \<Rightarrow> usedPorts s - {port i})"
proof (cases "map_of (instances s) uid")
  case None
  then have "uid \<notin> fst ` set (instances s)" by (simp add: map_of_eq_None_iff)
  with None show ?thesis by (simp add: destroyInstance_def)
next
  case (Some i)
  then show ?thesis
    by (simp add: destroyInstance_def emit_def releasePort_def Let_def split: option.splits)
qed

lemma releasePort_idempotent:
  "releasePort p (releasePort p s) = releasePort p s \<and>
   (p \<notin> usedPorts s \<longrightarrow> releasePort p s = s)"
  by (simp add: releasePort_def)

lemmas pool_defs = getOrCreateInstance_def createInstance_def startInstance_def allocatePort_def
  allocatePort_loop.simps spawnOpenCode_def waitForHealthy.simps destroyInstance_def
  releasePort_def emit_def new_pool_def make_config_def isHealthy_def checkHealth_def
  try_catch_def await_def catch_value_def response_ok_def response_json_def Let_def

text \<open>
  C7 (the code differs). With the ports 9000 to 9002 and every port free at the operating
  system, three calls lease the three ports and a fourth fails. After port 9001 is
  released, the next call fails again: the cursor stands at 9002, \<open>maxAttempts\<close> is
  \<open>hi - lo = 2\<close>, so only 9002 and 9000 are tried and the free port 9001 is never
  reached. Read with \<open>hi - lo = 3\<close> as the size of the range (9000 to 9003), a fourth
  call succeeds with port 9003 while three ports are leased.
\<close>

theorem allocatePort_misses_free_port:
  "usedPorts (three_leased 9000 9002) = {9000, 9001, 9002} \<and>
   fst (allocatePort 9000 9002 (\<lambda>p. True) (three_leased 9000 9002)) =
     Inl (Error ''No available ports in range'') \<and>
   9001 \<notin> usedPorts (releasePort 9001
      (snd (allocatePort 9000 9002 (\<lambda>p. True) (three_leased 9000 9002)))) \<and>
   fst (allocatePort 9000 9002 (\<lambda>p. True)
     (releasePort 9001 (snd (allocatePort 9000 9002 (\<lambda>p. True) (three_leased 9000 9002))))) =
     Inl (Error ''No available ports in range'') \<and>
   card (usedPorts (three_leased 9000 9003)) = 3 \<and>
   fst (allocatePort 9000 9003 (\<lambda>p. True) (three_leased 9000 9003)) = Inr 9003"
  by (simp add: three_leased_def allocatePort_def allocatePort_loop.simps new_pool_def
        releasePort_def Let_def insert_commute)





text \<open>
  C6. A second \<open>destroyInstance\<close> for the same user right after the first returns
  \<open>false\<close> and leaves the pool exactly as the first call left it: map, leased ports,
  signals sent and events emitted.
\<close>

theorem destroyInstance_idempotent:
  "destroyInstance uid (snd (destroyInstance uid s)) = (False, snd (destroyInstance uid s)) \<and>
   map_of (instances (snd (destroyInstance uid s))) uid = None"
  by (simp add: destroyInstance_def emit_def releasePort_def Let_def AList.delete_conv'
           split: option.splits)

section \<open>Tenant paths: properties\<close>

text \<open>
  C9 (the code differs). \<open>getTenantPath\<close> compares strings, not path components: for the
  tenant \<open>user_00112233445566aa\<close> the relative path
  \<open>../user_00112233445566aa.bak/settings.json\<close> resolves into a sibling directory
  whose name starts with the tenant id, the \<open>startsWith\<close> test passes, and the path is
  returned although it lies outside the tenant's root directory. \<open>isPathInTenant\<close>
  answers true for the same path.
\<close>

theorem getTenantPath_escapes:
  "getUserDataPath ''/srv/multiuser'' ''user_00112233445566aa'' =
     ''/srv/multiuser/users/user_00112233445566aa'' \<and>
   getTenantPath ''/srv/multiuser'' ''/srv/app'' ''user_00112233445566aa''
       ''../user_00112233445566aa.bak/settings.json'' =
     Inr ''/srv/multiuser/users/user_00112233445566aa.bak/settings.json'' \<and>
   \<not> within_directory ''/srv/multiuser/users/user_00112233445566aa''
       ''/srv/multiuser/users/user_00112233445566aa.bak/settings.json'' \<and>
   isPathInTenant ''/srv/multiuser'' ''/srv/app'' ''user_00112233445566aa''
       ''/srv/multiuser/users/user_00112233445566aa.bak/settings.json''"
  by (simp add: getTenantPath_def isPathInTenant_def getUserDataPath_def path_join_def
        path_normalize_def path_resolve_def normalizeString_def isAbsolute_def
        trailingSeparator_def within_directory_def path_components_def)

section \<open>The instance listing: properties\<close>

lemma listInstances_sanitized: "listInstances s = map sanitizeInstance (map snd (instances s))"
  by (simp add: listInstances_def sanitizeInstance_def)

lemma sanitizeInstance_password: "sanitizeInstance (i\<lparr>password := pw\<rparr>) = sanitizeInstance i"
  by (simp add: sanitizeInstance_def)

lemma sanitized_without_password:
  "map (\<lambda>x. sanitizeInstance (snd x)) (map (\<lambda>(uid, i). (uid, i\<lparr>password := f uid i\<rparr>)) xs) =
   map (\<lambda>x. sanitizeInstance (snd x)) xs"
  by (induction xs) (auto simp: sanitizeInstance_def)

lemma listInstances_with_passwords: "listInstances (with_passwords f s) = listInstances s"
  using sanitized_without_password [of f "instances s"]
  by (simp add: listInstances_sanitized with_passwords_def comp_def)

lemma getStats_with_passwords: "getStats lo hi (with_passwords f s) = getStats lo hi s"
proof -
  have "usedPorts (with_passwords f s) = usedPorts s" by (simp add: with_passwords_def)
  then show ?thesis by (simp add: getStats_def listInstances_with_passwords)
qed

lemma getInstance_with_passwords:
  "getInstance k (with_passwords f s) = map_option (\<lambda>i. i\<lparr>password := f k i\<rparr>) (getInstance k s)"
proof -
  have "map_of (map (\<lambda>(uid, i). (uid, i\<lparr>password := f uid i\<rparr>)) xs) k =
        map_option (\<lambda>i. i\<lparr>password := f k i\<rparr>) (map_of xs k)" for xs
    by (induction xs) auto
  then show ?thesis by (simp add: getInstance_def with_passwords_def)
qed

text \<open>
  C8. The body of the listing route holds, under \<open>instances\<close>, only sanitized images of
  instances of the map, in the branch for the user's own instance and in the branch for
  all instances. A sanitized instance has the keys \<open>id\<close>, \<open>userId\<close>, \<open>port\<close>,
  \<open>status\<close>, \<open>createdAt\<close>, \<open>lastActivity\<close> and \<open>config\<close>, with \<open>config\<close> holding
  \<open>maxMemoryMB\<close> alone. It does not depend on the credential: replacing the password of
  an instance, or every password in the pool, changes neither the sanitized instance nor
  the body of the listing.
\<close>

theorem listing_never_exposes_credential:
  "(\<exists>shown st.
      list_instances_handler getRole lo hi usr query_all s =
        JObj [(''instances'', JArr (map sanitizeInstance shown)), (''stats'', st)] \<and>
      set shown \<subseteq> snd ` set (instances s)) \<and>
   object_keys (sanitizeInstance i) =
     [''id'', ''userId'', ''port'', ''status'', ''createdAt'', ''lastActivity'', ''config''] \<and>
   map_option object_keys (get_prop (sanitizeInstance i) ''config'') = Some [''maxMemoryMB''] \<and>
   sanitizeInstance (i\<lparr>password := pw\<rparr>) = sanitizeInstance i \<and>
   list_instances_handler getRole lo hi usr query_all (with_passwords f s) =
     list_instances_handler getRole lo hi usr query_all s"
proof (intro conjI)
  show "\<exists>shown st.
      list_instances_handler getRole lo hi usr query_all s =
        JObj [(''instances'', JArr (map sanitizeInstance shown)), (''stats'', st)] \<and>
      set shown \<subseteq> snd ` set (instances s)"
  proof (cases "hasPermission getRole (Some usr) ''instance:admin'' \<and> query_all = Some ''true''")
    case True
    then have "list_instances_handler getRole lo hi usr query_all s =
        JObj [(''instances'', JArr (map sanitizeInstance (map snd (instances s)))),
              (''stats'', JObj [(''totalInstances'', JNum (int (st_totalInstances (getStats lo hi s)))),
                    (''runningInstances'', JNum (int (st_runningInstances (getStats lo hi s)))),
                    (''usedPorts'', JNum (int (st_usedPorts (getStats lo hi s)))),
                    (''availablePorts'', JNum (st_availablePorts (getStats lo hi s)))])]"
      by (simp add: list_instances_handler_def Let_def getStats_def listInstances_sanitized)
    then show ?thesis by (intro exI [of _ "map snd (instances s)"]) auto
  next
    case False
    show ?thesis
    proof (cases "getInstance (user_id usr) s")
      case None
      with False have "list_instances_handler getRole lo hi usr query_all s =
          JObj [(''instances'', JArr (map sanitizeInstance [])), (''stats'', JNull)]"
        by (auto simp: list_instances_handler_def Let_def)
      then show ?thesis by (intro exI [of _ "[]"]) auto
    next
      case (Some j)
      with False have "list_instances_handler getRole lo hi usr query_all s =
          JObj [(''instances'', JArr (map sanitizeInstance [j])), (''stats'', JNull)]"
        by (auto simp: list_instances_handler_def Let_def)
      moreover from Some have "j \<in> snd ` set (instances s)"
        by (auto simp: getInstance_def dest!: map_of_SomeD intro!: image_eqI [where x = "(user_id usr, j)"])
      ultimately show ?thesis by (intro exI [of _ "[j]"]) auto
    qed
  qed
next
  show "list_instances_handler getRole lo hi usr query_all (with_passwords f s) =
     list_instances_handler getRole lo hi usr query_all s"
    by (cases "getInstance (user_id usr) s")
       (simp_all add: list_instances_handler_def Let_def getStats_with_passwords
          getInstance_with_passwords sanitizeInstance_password)
qed (simp_all add: sanitizeInstance_def)

section \<open>One instance per tenant, one instance per port\<close>

lemma pool_inv_new: "pool_inv (new_pool lo)"
  by (simp add: pool_inv_def new_pool_def)

lemma pool_inv_allocatePort:
  assumes "pool_inv s"
  shows "pool_inv (snd (allocatePort lo hi avail s))"
proof (cases "allocatePort lo hi avail s")
  case (Pair r s')
  show ?thesis
  proof (cases r)
    case (Inl e)
    with Pair allocatePort_failed [of lo hi avail s e s'] assms show ?thesis
      by (simp add: pool_inv_def)
  next
    case (Inr p)
    with Pair allocatePort_leased [of lo hi avail s p s'] assms show ?thesis
      by (simp add: pool_inv_def)
  qed
qed

lemma pool_inv_destroyInstance:
  assumes "pool_inv s"
  shows "pool_inv (snd (destroyInstance uid s))"
proof (cases "map_of (instances s) uid")
  case None
  with assms show ?thesis by (simp add: destroyInstance_def)
next
  case (Some i)
  have st: "instances (snd (destroyInstance uid s)) = AList.delete uid (instances s)"
      "usedPorts (snd (destroyInstance uid s)) = usedPorts s - {port i}"
    using destroyInstance_state [of uid s] Some by simp_all
  have keys: "distinct (map fst (AList.delete uid (instances s)))"
    using assms by (simp add: pool_inv_def distinct_delete)
  have kept: "u \<noteq> uid \<and> map_of (instances s) u = Some j"
    if "map_of (AList.delete uid (instances s)) u = Some j" for u j
    using that by (auto simp: delete_conv' split: if_splits)
  have owner: "userId j = u \<and> port j \<in> usedPorts s - {port i}"
    if "map_of (AList.delete uid (instances s)) u = Some j" for u j
    using kept [OF that] assms Some unfolding pool_inv_def by blast
  have ports: "u1 = u2"
    if "map_of (AList.delete uid (instances s)) u1 = Some i1"
       "map_of (AList.delete uid (instances s)) u2 = Some i2" "port i1 = port i2"
    for u1 i1 u2 i2
    using kept [OF that(1)] kept [OF that(2)] that(3) assms unfolding pool_inv_def by blast
  show ?thesis
    unfolding pool_inv_def st using keys owner ports by blast
qed

lemma pool_inv_register:
  assumes inv: "pool_inv s" and fresh: "p \<notin> usedPorts s" and i: "userId i = uid" "port i = p"
  shows "pool_inv (s\<lparr>instances := AList.update uid i (instances s),
                     usedPorts := insert p (usedPorts s)\<rparr>)"
proof -
  let ?xs = "AList.update uid i (instances s)"
  have keys: "distinct (map fst ?xs)"
    using inv by (simp add: pool_inv_def distinct_update)
  have entry: "(u = uid \<and> j = i) \<or> (u \<noteq> uid \<and> map_of (instances s) u = Some j)"
    if "map_of ?xs u = Some j" for u j
    using that by (auto simp: update_conv' split: if_splits)
  have old: "userId j = u \<and> port j \<in> usedPorts s \<and> port j \<noteq> p"
    if "map_of (instances s) u = Some j" for u j
    using inv fresh that unfolding pool_inv_def by blast
  have owner: "userId j = u \<and> port j \<in> insert p (usedPorts s)"
    if "map_of ?xs u = Some j" for u j
    using entry [OF that] old i by auto
  have ports: "u1 = u2"
    if "map_of ?xs u1 = Some i1" "map_of ?xs u2 = Some i2" "port i1 = port i2" for u1 i1 u2 i2
  proof -
    from entry [OF that(1)] entry [OF that(2)] show ?thesis
    proof (elim disjE conjE)
      assume "u1 \<noteq> uid" "map_of (instances s) u1 = Some i1"
             "u2 \<noteq> uid" "map_of (instances s) u2 = Some i2"
      with that(3) inv show ?thesis unfolding pool_inv_def by blast
    qed (use that(3) old i in auto)
  qed
  show ?thesis
    unfolding pool_inv_def using keys owner ports by simp blast
qed

lemma pool_inv_createInstance:
  assumes "pool_inv s"
  shows "pool_inv (snd (createInstance lo hi ev uid c s))"
proof (cases "allocatePort lo hi (e_avail ev) s")
  case (Pair r s1)
  show ?thesis
  proof (cases r)
    case (Inl e)
    with Pair pool_inv_allocatePort [OF assms, of lo hi "e_avail ev"] show ?thesis
      by (simp add: createInstance_def startInstance_def)
  next
    case (Inr p)
    with Pair have lease: "p \<notin> usedPorts s" "usedPorts s1 = insert p (usedPorts s)"
        "instances s1 = instances s"
      using allocatePort_leased [of lo hi "e_avail ev" s p s1] by simp_all
    have released: "pool_inv (s1\<lparr>usedPorts := usedPorts s\<rparr>)"
      using assms lease by (simp add: pool_inv_def)
    define i where "i = \<lparr>inst_id = e_id ev, userId = uid, port = p, password = e_password ev,
        process = None, status = ''starting'', createdAt = e_now ev, lastActivity = e_now ev,
        config = make_config (e_cwd ev) c\<rparr>"
    show ?thesis
    proof (cases "e_spawn ev")
      case (SpawnThrows e)
      with Pair Inr lease released show ?thesis
        by (simp add: createInstance_def startInstance_def spawnOpenCode_def releasePort_def emit_def
              pool_inv_def)
    next
      case (SpawnFails e)
      with Pair Inr pool_inv_allocatePort [OF assms, of lo hi "e_avail ev"] show ?thesis
        by (simp add: createInstance_def startInstance_def spawnOpenCode_def)
    next
      case SpawnStarts
      define s2 where "s2 = s1\<lparr>spawned := spawned s1 @ [i]\<rparr>"
      define i1 where "i1 = i\<lparr>process := Some (length (spawned s1))\<rparr>"
      show ?thesis
      proof (cases "waitForHealthy (e_probe ev) i1 30000 (e_now ev) (e_now ev)")
        case (Inl e)
        with Pair Inr SpawnStarts lease released show ?thesis
          by (simp add: createInstance_def startInstance_def spawnOpenCode_def releasePort_def emit_def
                pool_inv_def i_def i1_def Let_def)
      next
        case ready: (Inr t)
        have reg: "pool_inv (s\<lparr>instances := AList.update uid (i1\<lparr>status := ''running''\<rparr>) (instances s),
                     usedPorts := insert p (usedPorts s)\<rparr>)"
          using pool_inv_register [OF assms lease(1), of "i1\<lparr>status := ''running''\<rparr>" uid]
          by (simp add: i1_def i_def)
        have "snd (createInstance lo hi ev uid c s) =
              emit (InstanceCreated (i1\<lparr>status := ''running''\<rparr>))
                (s2\<lparr>instances := AList.update uid (i1\<lparr>status := ''running''\<rparr>) (instances s2)\<rparr>)"
          using Pair Inr SpawnStarts ready
          by (simp add: createInstance_def startInstance_def spawnOpenCode_def Let_def i_def i1_def s2_def)
        with reg lease show ?thesis
          by (simp add: pool_inv_def emit_def s2_def)
      qed
    qed
  qed
qed

lemma pool_inv_pointwise:
  assumes inv: "pool_inv s" and keys: "map fst xs = map fst (instances s)"
    and same: "\<And>u j'. map_of xs u = Some j' \<Longrightarrow>
        \<exists>j. map_of (instances s) u = Some j \<and> userId j' = userId j \<and> port j' = port j"
  shows "pool_inv (s\<lparr>instances := xs\<rparr>)"
proof -
  have owner: "userId j' = u \<and> port j' \<in> usedPorts s" if "map_of xs u = Some j'" for u j'
    using same [OF that] inv unfolding pool_inv_def by metis
  have ports: "u1 = u2"
    if "map_of xs u1 = Some i1" "map_of xs u2 = Some i2" "port i1 = port i2" for u1 i1 u2 i2
    using same [OF that(1)] same [OF that(2)] that(3) inv unfolding pool_inv_def by metis
  show ?thesis
    unfolding pool_inv_def using inv keys owner ports by (simp add: pool_inv_def) blast
qed

lemma pool_inv_refresh:
  assumes "pool_inv s" "map_of (instances s) uid = Some i"
  shows "pool_inv (s\<lparr>instances := AList.update uid (i\<lparr>lastActivity := t\<rparr>) (instances s)\<rparr>)"
proof (rule pool_inv_pointwise [OF assms(1)])
  from assms(2) have "uid \<in> fst ` set (instances s)"
    by (metis map_of_eq_None_iff option.distinct(1))
  then show "map fst (AList.update uid (i\<lparr>lastActivity := t\<rparr>) (instances s)) =
             map fst (instances s)"
    by (simp add: update_keys)
next
  fix u j' assume "map_of (AList.update uid (i\<lparr>lastActivity := t\<rparr>) (instances s)) u = Some j'"
  with assms(2) show "\<exists>j. map_of (instances s) u = Some j \<and> userId j' = userId j \<and> port j' = port j"
    by (auto simp: update_conv' split: if_splits)
qed

lemma pool_inv_getOrCreateInstance:
  assumes "pool_inv s"
  shows "pool_inv (snd (getOrCreateInstance lo hi ev uid c s))"
proof (cases "map_of (instances s) uid")
  case None
  with pool_inv_createInstance [OF assms] show ?thesis
    by (simp add: getOrCreateInstance_def)
next
  case (Some i)
  show ?thesis
  proof (cases "isHealthy (Some i) (e_fetch ev)")
    case True
    with Some pool_inv_refresh [OF assms Some] show ?thesis
      by (simp add: getOrCreateInstance_def Let_def)
  next
    case False
    with Some pool_inv_createInstance [OF pool_inv_destroyInstance [OF assms]] show ?thesis
      by (simp add: getOrCreateInstance_def)
  qed
qed

lemma pool_inv_sweep_entries:
  "pool_inv s \<Longrightarrow> pool_inv (sweep_entries t health entries s)"
  by (induction t health entries s rule: sweep_entries.induct)
     (simp_all add: pool_inv_destroyInstance)

lemma pool_inv_process_exit:
  assumes "pool_inv s"
  shows "pool_inv (process_exit h code s)"
  unfolding process_exit_def
proof (rule pool_inv_pointwise [OF assms])
  let ?f = "\<lambda>(uid, i). (uid, if process i = Some h
                               then i\<lparr>status := (if code = 0 then ''stopped'' else ''error'')\<rparr>
                               else i)"
  show "map fst (map ?f (instances s)) = map fst (instances s)"
    by (induction "instances s") auto
  fix u j' assume "map_of (map ?f (instances s)) u = Some j'"
  moreover have "map_of (map ?f xs) u = Some j' \<Longrightarrow>
      \<exists>j. map_of xs u = Some j \<and> userId j' = userId j \<and> port j' = port j" for xs
    by (induction xs) (auto split: if_splits)
  ultimately show "\<exists>j. map_of (instances s) u = Some j \<and> userId j' = userId j \<and> port j' = port j"
    by blast
qed

lemma touch_instance_keys: "map fst (touch_instance requester ident t xs) = map fst xs"
  by (induction xs) auto

lemma touch_instance_entry:
  "map_of (touch_instance requester ident t xs) u = Some j' \<Longrightarrow>
     \<exists>j. map_of xs u = Some j \<and> userId j' = userId j \<and> port j' = port j"
  by (induction xs) (auto split: if_splits)

lemma pool_inv_report_activity:
  assumes "pool_inv s"
  shows "pool_inv (report_activity requester ident t s)"
  unfolding report_activity_def
  by (rule pool_inv_pointwise [OF assms]) (simp_all add: touch_instance_keys touch_instance_entry)

lemma pool_inv_exec: "pool_inv s \<Longrightarrow> pool_inv (exec lo hi x s)"
  by (cases x)
     (simp_all add: pool_inv_getOrCreateInstance pool_inv_destroyInstance sweep_def
        pool_inv_sweep_entries pool_inv_allocatePort pool_inv_process_exit
        pool_inv_report_activity)

lemma pool_inv_run: "pool_inv s \<Longrightarrow> pool_inv (run lo hi xs s)"
  by (induction xs arbitrary: s) (simp_all add: pool_inv_exec)

lemma at_most_one_entry:
  assumes "distinct (map fst xs)"
    and "\<And>u1 i1 u2 i2. map_of xs u1 = Some i1 \<Longrightarrow> map_of xs u2 = Some i2 \<Longrightarrow>
           g i1 = g i2 \<Longrightarrow> u1 = u2"
  shows "length (filter (\<lambda>i. g i = a) (map snd xs)) \<le> 1"
  using assms
proof (induction xs)
  case Nil
  then show ?case by simp
next
  case (Cons x xs)
  obtain u i where x: "x = (u, i)" by (cases x)
  have dist: "distinct (map fst xs)" and fresh: "u \<notin> fst ` set xs"
    using Cons.prems(1) x by auto
  have later: "map_of (x # xs) u' = Some j" if "map_of xs u' = Some j" for u' j
    using that fresh x by (auto dest: map_of_SomeD intro: rev_image_eqI)
  have IH: "length (filter (\<lambda>i. g i = a) (map snd xs)) \<le> 1"
    using Cons.IH [OF dist] Cons.prems(2) later by blast
  show ?case
  proof (cases "g i = a")
    case False
    with IH x show ?thesis by simp
  next
    case True
    have "g j \<noteq> a" if "j \<in> snd ` set xs" for j
    proof
      assume ga: "g j = a"
      from that obtain u' where in_xs: "(u', j) \<in> set xs" by auto
      with dist have "map_of xs u' = Some j" by simp
      then have "map_of (x # xs) u' = Some j" by (rule later)
      moreover have "map_of (x # xs) u = Some i" using x by simp
      ultimately have "u' = u" using Cons.prems(2) True ga by metis
      with in_xs fresh show False by (auto intro: rev_image_eqI)
    qed
    then have "filter (\<lambda>i. g i = a) (map snd xs) = []"
      by (auto simp: filter_empty_conv)
    with True x show ?thesis by simp
  qed
qed

lemma filter_live_le:
  "length (filter P (filter Q ys)) \<le> length (filter P ys)"
  by (induction ys) auto

text \<open>
  C1. After any sequence of operations on a new pool (get-or-create, destroy, the
  periodic sweep, a bare port allocation, a process exit, an activity report), the map
  holds at most one live instance of each tenant.
\<close>

theorem one_live_instance_per_tenant:
  "length (instances_of_tenant tenant (run lo hi ops (new_pool lo))) \<le> 1"
proof -
  let ?s = "run lo hi ops (new_pool lo)"
  have inv: "pool_inv ?s" by (rule pool_inv_run [OF pool_inv_new])
  have "length (filter (\<lambda>i. userId i = tenant) (map snd (instances ?s))) \<le> 1"
  proof (rule at_most_one_entry)
    show "distinct (map fst (instances ?s))" using inv by (simp add: pool_inv_def)
  next
    fix u1 i1 u2 i2
    assume "map_of (instances ?s) u1 = Some i1" "map_of (instances ?s) u2 = Some i2"
      "userId i1 = userId i2"
    with inv show "u1 = u2" unfolding pool_inv_def by metis
  qed
  moreover have "length (instances_of_tenant tenant ?s) \<le>
      length (filter (\<lambda>i. userId i = tenant) (map snd (instances ?s)))"
    unfolding instances_of_tenant_def live_instances_def by (rule filter_live_le)
  ultimately show ?thesis by simp
qed



section \<open>Overlapping callers: properties\<close>

lemmas call_defs = two_callers_def resume_call_def allocatePort_scan.simps caller_env_def
  reports_healthy_def default_config_def

lemma isHealthy_lastActivity:
  "isHealthy (Some (i\<lparr>lastActivity := t\<rparr>)) fetched = isHealthy (Some i) fetched"
  by (simp add: isHealthy_def checkHealth_def)

lemma createInstance_created:
  assumes "createInstance lo hi ev uid c s = (Inr i, s')"
  shows "map_of (instances s') uid = Some i \<and> length (spawned s') = length (spawned s) + 1"
proof (cases "allocatePort lo hi (e_avail ev) s")
  case (Pair r s1)
  show ?thesis
  proof (cases r)
    case (Inl e)
    with Pair assms show ?thesis by (simp add: createInstance_def)
  next
    case (Inr p)
    with Pair have "spawned s1 = spawned s"
      using allocatePort_leased [of lo hi "e_avail ev" s p s1] by simp
    with assms Pair Inr show ?thesis
      by (auto simp: createInstance_def startInstance_def spawnOpenCode_def emit_def Let_def update_conv'
               split: spawn_outcome.splits sum.splits)
  qed
qed

lemma call_all_registered:
  assumes "\<exists>t. map_of (instances s) uid = Some (i\<lparr>lastActivity := t\<rparr>)"
    and "\<forall>e\<in>set evs. isHealthy (Some i) (e_fetch e)"
    and "call_all lo hi uid c evs s = (rs, s2)"
  shows "spawned s2 = spawned s \<and> length rs = length evs \<and>
         (\<forall>r\<in>set rs. \<exists>t. r = Inr (i\<lparr>lastActivity := t\<rparr>)) \<and>
         (\<exists>t. map_of (instances s2) uid = Some (i\<lparr>lastActivity := t\<rparr>))"
  using assms
proof (induction evs arbitrary: s rs s2)
  case Nil
  then show ?case by auto
next
  case (Cons ev evs)
  from Cons.prems(1) obtain t where reg: "map_of (instances s) uid = Some (i\<lparr>lastActivity := t\<rparr>)"
    by blast
  from Cons.prems(2) have ok: "isHealthy (Some (i\<lparr>lastActivity := t\<rparr>)) (e_fetch ev)"
    by (simp add: isHealthy_lastActivity)
  define s1 where
    "s1 = s\<lparr>instances := AList.update uid (i\<lparr>lastActivity := e_now ev\<rparr>) (instances s)\<rparr>"
  have first: "getOrCreateInstance lo hi ev uid c s = (Inr (i\<lparr>lastActivity := e_now ev\<rparr>), s1)"
    using reg ok by (simp add: getOrCreateInstance_def s1_def Let_def)
  obtain rs' where rest: "call_all lo hi uid c evs s1 = (rs', s2)"
    and rs: "rs = Inr (i\<lparr>lastActivity := e_now ev\<rparr>) # rs'"
    using Cons.prems(3) first by (auto split: prod.splits)
  have "\<exists>t. map_of (instances s1) uid = Some (i\<lparr>lastActivity := t\<rparr>)"
    by (auto simp: s1_def update_conv')
  from Cons.IH [OF this _ rest] Cons.prems(2)
  have "spawned s2 = spawned s1 \<and> length rs' = length evs \<and>
        (\<forall>r\<in>set rs'. \<exists>t. r = Inr (i\<lparr>lastActivity := t\<rparr>)) \<and>
        (\<exists>t. map_of (instances s2) uid = Some (i\<lparr>lastActivity := t\<rparr>))"
    by simp
  then show ?case by (auto simp: rs s1_def)
qed

text \<open>
  C3 (amended). For a tenant with no instance in the map and callers of
  \<open>getOrCreateInstance\<close> that run one after the other: when the first call returns an
  instance and that instance answers the health checks of the later calls, exactly one
  process is spawned in all, and every later caller receives that same instance, with
  only \<open>lastActivity\<close> refreshed; it is the instance the map holds at the end.
\<close>

theorem sequential_callers_one_process:
  assumes "map_of (instances s) uid = None"
    and "call_all lo hi uid c (ev # evs) s = (Inr i # rs, s2)"
    and "\<forall>e\<in>set evs. isHealthy (Some i) (e_fetch e)"
  shows "length (spawned s2) = length (spawned s) + 1 \<and> length rs = length evs \<and>
         (\<forall>r\<in>set rs. \<exists>t. r = Inr (i\<lparr>lastActivity := t\<rparr>)) \<and>
         (\<exists>t. map_of (instances s2) uid = Some (i\<lparr>lastActivity := t\<rparr>))"
proof -
  obtain s1 where first: "getOrCreateInstance lo hi ev uid c s = (Inr i, s1)"
    and rest: "call_all lo hi uid c evs s1 = (rs, s2)"
    using assms(2) by (auto split: prod.splits)
  from first assms(1) have "createInstance lo hi ev uid c s = (Inr i, s1)"
    by (simp add: getOrCreateInstance_def)
  from createInstance_created [OF this]
  have reg: "map_of (instances s1) uid = Some i" and one: "length (spawned s1) = length (spawned s) + 1"
    by simp_all
  have "i\<lparr>lastActivity := lastActivity i\<rparr> = i" by simp
  with reg have "\<exists>t. map_of (instances s1) uid = Some (i\<lparr>lastActivity := t\<rparr>)"
    by metis
  from call_all_registered [OF this assms(3) rest] one show ?thesis by simp
qed

lemma three_in_turn_results:
  "fst three_in_turn =
     [Inr instance_a, Inr (instance_a\<lparr>lastActivity := 1400\<rparr>),
      Inr (instance_a\<lparr>lastActivity := 1800\<rparr>)]"
  by (simp add: three_in_turn_def instance_a_def call_defs pool_defs)

theorem sequential_callers_one_process_witness:
  "fst three_in_turn =
     [Inr instance_a, Inr (instance_a\<lparr>lastActivity := 1400\<rparr>),
      Inr (instance_a\<lparr>lastActivity := 1800\<rparr>)] \<and>
   length (spawned (snd three_in_turn)) = 1"
proof -
  have run: "call_all 9000 10000 ''user_1'' default_config
       (caller_env 1000 ''instance_a'' ''pw_a'' #
        [caller_env 1400 ''instance_b'' ''pw_b'', caller_env 1800 ''instance_c'' ''pw_c''])
       (new_pool 9000) =
     (Inr instance_a #
        [Inr (instance_a\<lparr>lastActivity := 1400\<rparr>), Inr (instance_a\<lparr>lastActivity := 1800\<rparr>)],
      snd three_in_turn)"
    using three_in_turn_results by (simp add: three_in_turn_def prod_eq_iff)
  have none: "map_of (instances (new_pool 9000)) ''user_1'' = None"
    by (simp add: new_pool_def)
  have healthy: "\<forall>e\<in>set [caller_env 1400 ''instance_b'' ''pw_b'',
                       caller_env 1800 ''instance_c'' ''pw_c''].
                   isHealthy (Some instance_a) (e_fetch e)"
    by (simp add: instance_a_def call_defs pool_defs)
  from sequential_callers_one_process [OF none run healthy] three_in_turn_results
  show ?thesis by (simp add: new_pool_def)
qed

text \<open>
  C3 as stated fails for callers that overlap: creation is not serialized per tenant.
  Two callers for \<open>user_1\<close> on a new pool, the second starting while the first waits
  for its worker to become healthy: each finds no instance in the map, leases a port
  and spawns a process, so two processes run for the one tenant (on ports 9000 and 9001);
  the callers receive different instances, and the map keeps only the one registered
  last.
\<close>

theorem two_callers_two_processes:
  "map userId (spawned (snd two_callers)) = [''user_1'', ''user_1''] \<and>
   map port (spawned (snd two_callers)) = [9000, 9001] \<and>
   fst two_callers =
     [Returned (Inr instance_a),
      Returned (Inr \<lparr>inst_id = ''instance_b'', userId = ''user_1'', port = 9001,
                     password = ''pw_b'', process = Some 1, status = ''running'',
                     createdAt = 1400, lastActivity = 1400,
                     config = \<lparr>maxMemoryMB = 2048, workingDir = ''/srv/app'', extra = []\<rparr>\<rparr>)] \<and>
   map fst (instances (snd two_callers)) = [''user_1''] \<and>
   map inst_id (map snd (instances (snd two_callers))) = [''instance_b'']"
  by (simp add: instance_a_def call_defs pool_defs)

text \<open>
  A caller that runs alone, with the same answers at every step, returns what
  \<open>getOrCreateInstance\<close> returns and leaves the pool it leaves.
\<close>

lemma resume_after_lease:
  assumes "e_avail ev p"
  shows "((\<lambda>(st, s). resume_call lo hi ev uid c st s) ^^ 2) (AwaitingPort p a, s) =
         (case startInstance ev uid c p (s\<lparr>usedPorts := insert p (usedPorts s)\<rparr>) of
            (r, s') \<Rightarrow> (Returned r, s'))"
  using assms
  by (auto simp: numeral_2_eq_2 resume_call_def startInstance_def spawnOpenCode_def Let_def
           split: spawn_outcome.splits sum.splits)

lemma resume_scan:
  "\<exists>n. ((\<lambda>(st, s). resume_call lo hi ev uid c st s) ^^ n) (allocatePort_scan lo hi a s) =
        (case allocatePort_loop lo hi (e_avail ev) a s of
           (Inl e, s1) \<Rightarrow> (Returned (Inl e), s1)
         | (Inr p, s1) \<Rightarrow> (case startInstance ev uid c p s1 of (r, s') \<Rightarrow> (Returned r, s')))"
proof (induction lo hi "e_avail ev" a s rule: allocatePort_loop.induct)
  case (1 lo hi a s)
  let ?S = "\<lambda>(st, s). resume_call lo hi ev uid c st s"
  show ?case
  proof (cases "a < hi - lo")
    case False
    then have "(?S ^^ 0) (allocatePort_scan lo hi a s) =
        (case allocatePort_loop lo hi (e_avail ev) a s of
           (Inl e, s1) \<Rightarrow> (Returned (Inl e), s1)
         | (Inr p, s1) \<Rightarrow> (case startInstance ev uid c p s1 of (r, s') \<Rightarrow> (Returned r, s')))"
      by (simp add: allocatePort_scan.simps [of lo hi a s]
            allocatePort_loop.simps [of lo hi "e_avail ev" a s])
    then show ?thesis by blast
  next
    case True
    define s1 where "s1 = s\<lparr>nextPort := (if nextPort s + 1 > hi then lo else nextPort s + 1)\<rparr>"
    show ?thesis
    proof (cases "nextPort s \<notin> usedPorts s \<and> e_avail ev (nextPort s)")
      case lease: True
      have "(?S ^^ 2) (allocatePort_scan lo hi a s) =
        (case allocatePort_loop lo hi (e_avail ev) a s of
           (Inl e, s1) \<Rightarrow> (Returned (Inl e), s1)
         | (Inr p, s1) \<Rightarrow> (case startInstance ev uid c p s1 of (r, s') \<Rightarrow> (Returned r, s')))"
        using True lease resume_after_lease [of ev "nextPort s" lo hi uid c a s1]
        by (simp add: allocatePort_scan.simps [of lo hi a s]
              allocatePort_loop.simps [of lo hi "e_avail ev" a s] Let_def s1_def)
      then show ?thesis by blast
    next
      case skip: False
      from "1.hyps" [of "nextPort s" s1] True skip
      obtain n where n: "(?S ^^ n) (allocatePort_scan lo hi (a + 1) s1) =
        (case allocatePort_loop lo hi (e_avail ev) (a + 1) s1 of
           (Inl e, s1) \<Rightarrow> (Returned (Inl e), s1)
         | (Inr p, s1) \<Rightarrow> (case startInstance ev uid c p s1 of (r, s') \<Rightarrow> (Returned r, s')))"
        by (auto simp: s1_def)
      have loop: "allocatePort_loop lo hi (e_avail ev) a s =
                  allocatePort_loop lo hi (e_avail ev) (a + 1) s1"
        using True skip
        by (auto simp: allocatePort_loop.simps [of lo hi "e_avail ev" a s] Let_def s1_def)
      show ?thesis
      proof (cases "nextPort s \<in> usedPorts s")
        case True
        with \<open>a < hi - lo\<close> have "allocatePort_scan lo hi a s = allocatePort_scan lo hi (a + 1) s1"
          by (simp add: allocatePort_scan.simps [of lo hi a s] Let_def s1_def)
        with n loop show ?thesis by metis
      next
        case False
        with skip have busy: "\<not> e_avail ev (nextPort s)" by simp
        from False \<open>a < hi - lo\<close>
        have "allocatePort_scan lo hi a s = (AwaitingPort (nextPort s) a, s1)"
          by (simp add: allocatePort_scan.simps [of lo hi a s] Let_def s1_def)
        moreover have "?S (AwaitingPort (nextPort s) a, s1) = allocatePort_scan lo hi (a + 1) s1"
          using busy by (simp add: resume_call_def)
        ultimately have "(?S ^^ Suc n) (allocatePort_scan lo hi a s) =
            (?S ^^ n) (allocatePort_scan lo hi (a + 1) s1)"
          by (simp add: funpow_swap1)
        with n loop show ?thesis by metis
      qed
    qed
  qed
qed

lemma resume_alone:
  "\<exists>n. ((\<lambda>(st, s). resume_call lo hi ev uid c st s) ^^ n) (NotStarted, s) =
        (case getOrCreateInstance lo hi ev uid c s of (r, s') \<Rightarrow> (Returned r, s'))"
proof -
  let ?S = "\<lambda>(st, s). resume_call lo hi ev uid c st s"
  have create: "\<exists>n. (?S ^^ n) (allocatePort_scan lo hi 0 s0) =
      (case createInstance lo hi ev uid c s0 of (r, s') \<Rightarrow> (Returned r, s'))" for s0
    using resume_scan [of lo hi ev uid c 0 s0]
    by (auto simp: createInstance_def allocatePort_def split: prod.splits sum.splits)
  show ?thesis
  proof (cases "map_of (instances s) uid")
    case None
    from create [of s] obtain n where
      "(?S ^^ n) (allocatePort_scan lo hi 0 s) =
         (case createInstance lo hi ev uid c s of (r, s') \<Rightarrow> (Returned r, s'))" ..
    with None have "(?S ^^ Suc n) (NotStarted, s) =
        (case getOrCreateInstance lo hi ev uid c s of (r, s') \<Rightarrow> (Returned r, s'))"
      by (simp add: funpow_swap1 resume_call_def getOrCreateInstance_def)
    then show ?thesis by blast
  next
    case (Some i)
    show ?thesis
    proof (cases "isHealthy (Some i) (e_fetch ev)")
      case True
      with Some have "(?S ^^ Suc 0) (NotStarted, s) =
          (case getOrCreateInstance lo hi ev uid c s of (r, s') \<Rightarrow> (Returned r, s'))"
        by (simp add: resume_call_def getOrCreateInstance_def Let_def)
      then show ?thesis by blast
    next
      case False
      from create [of "snd (destroyInstance uid s)"] obtain n where
        "(?S ^^ n) (allocatePort_scan lo hi 0 (snd (destroyInstance uid s))) =
           (case createInstance lo hi ev uid c (snd (destroyInstance uid s)) of
              (r, s') \<Rightarrow> (Returned r, s'))" ..
      with Some False have "(?S ^^ Suc n) (NotStarted, s) =
          (case getOrCreateInstance lo hi ev uid c s of (r, s') \<Rightarrow> (Returned r, s'))"
        by (simp add: funpow_swap1 resume_call_def getOrCreateInstance_def)
      then show ?thesis by blast
    qed
  qed
qed

lemma run_schedule_alone:
  "run_schedule lo hi uid c (replicate n (0, ev)) ([st], s) =
     (case ((\<lambda>(st, s). resume_call lo hi ev uid c st s) ^^ n) (st, s) of
        (st', s') \<Rightarrow> ([st'], s'))"
proof (induction n arbitrary: st s)
  case 0
  show ?case by simp
next
  case (Suc n)
  obtain st1 s1 where step: "resume_call lo hi ev uid c st s = (st1, s1)"
    by (cases "resume_call lo hi ev uid c st s")
  then show ?case using Suc.IH [of st1 s1] by (simp add: funpow_swap1)
qed

lemma single_caller_agrees:
  "\<exists>n. run_schedule lo hi uid c (replicate n (0, ev)) ([NotStarted], s) =
        ([Returned (fst (getOrCreateInstance lo hi ev uid c s))],
         snd (getOrCreateInstance lo hi ev uid c s))"
proof -
  from resume_alone [of lo hi ev uid c s] obtain n where
    "((\<lambda>(st, s). resume_call lo hi ev uid c st s) ^^ n) (NotStarted, s) =
       (case getOrCreateInstance lo hi ev uid c s of (r, s') \<Rightarrow> (Returned r, s'))" ..
  then have "run_schedule lo hi uid c (replicate n (0, ev)) ([NotStarted], s) =
        ([Returned (fst (getOrCreateInstance lo hi ev uid c s))],
         snd (getOrCreateInstance lo hi ev uid c s))"
    by (simp add: run_schedule_alone split: prod.splits)
  then show ?thesis ..
qed

end
